theory Spec2Isabelle
  imports Main "HOL-Library.AList"
begin

section \<open>Data model of \<^verbatim>\<open>index.js\<close>\<close>

text \<open>
  The plugin receives vinyl files. A file's content is \<^verbatim>\<open>null\<close>, a buffer or a stream;
  \<^verbatim>\<open>file.isNull()\<close> and \<^verbatim>\<open>file.isStream()\<close> test which. The path relative to the file's
  base is what \<^verbatim>\<open>gulp.dest\<close> keeps below its output folder.
\<close>

datatype contents = Null | Buffer string | Stream

record vinyl =
  relative :: string
  contents :: contents

definition isNull :: "vinyl \<Rightarrow> bool" where
  "isNull f = (contents f = Null)"

definition isStream :: "vinyl \<Rightarrow> bool" where
  "isStream f = (contents f = Stream)"

text \<open>
  The options object. Every property may be missing (\<^verbatim>\<open>undefined\<close>), which is \<open>None\<close>.
  The first argument of the plugin is either such an object or a bare string.
\<close>

record options =
  opt_remoteUrl :: "string option"
  opt_origin :: "string option"
  opt_branch :: "string option"
  opt_cacheDir :: "string option"
  opt_push :: "bool option"

datatype plugin_arg = Str string | Obj options

text \<open>
  JavaScript truthiness of an optional string: \<^verbatim>\<open>undefined\<close> and the empty string are
  falsy. \<open>a || b\<close> on strings yields \<open>b\<close> exactly when \<open>a\<close> is falsy.
\<close>

definition truthy :: "string option \<Rightarrow> bool" where
  "truthy x = (case x of None \<Rightarrow> False | Some s \<Rightarrow> s \<noteq> [])"

definition or_else :: "string option \<Rightarrow> string \<Rightarrow> string" where
  "or_else x d = (if truthy x then the x else d)"

text \<open>
  The variables the closure keeps. \<open>normalize\<close> is lines 28 to 31, which turn the bare-string
  form into an options object, and \<open>configure\<close> is lines 32 to 36 after it.
\<close>

record plugin =
  remoteUrl :: "string option"
  origin :: string
  branch :: string
  cacheDir :: "string option"
  push :: bool

definition normalize :: "plugin_arg \<Rightarrow> string option \<Rightarrow> options" where
  "normalize arg remote =
     (case arg of
        Str s \<Rightarrow> \<lparr>opt_remoteUrl = Some s, opt_origin = remote, opt_branch = None,
                  opt_cacheDir = None, opt_push = None\<rparr>
      | Obj opts \<Rightarrow> opts)"

definition configure :: "plugin_arg \<Rightarrow> string option \<Rightarrow> plugin" where
  "configure arg remote =
     (let opts = normalize arg remote in
      \<lparr>remoteUrl = opt_remoteUrl opts,
       origin = or_else (opt_origin opts) ''origin'',
       branch = or_else (opt_branch opts) ''gh-pages'',
       cacheDir = opt_cacheDir opts,
       push = (case opt_push opts of None \<Rightarrow> True | Some b \<Rightarrow> b)\<rparr>)"

section \<open>The collector\<close>

text \<open>
  \<^verbatim>\<open>collectFileName\<close> is the transform function of the through stream. It changes three
  things: the closure's array \<^verbatim>\<open>filePaths\<close>, the files pushed downstream with
  \<^verbatim>\<open>this.push\<close>, and the error events emitted on the stream. After an error event the
  function goes on to \<^verbatim>\<open>callback()\<close>, so the next file is taken.
\<close>

datatype plugin_error = PluginError string string

record collector =
  filePaths :: "vinyl list"
  pushed :: "vinyl list"
  emitted :: "plugin_error list"

definition collector_init :: collector where
  "collector_init = \<lparr>filePaths = [], pushed = [], emitted = []\<rparr>"

definition collectFileName :: "vinyl \<Rightarrow> collector \<Rightarrow> collector" where
  "collectFileName f st =
     (if isNull f then st\<lparr>pushed := pushed st @ [f]\<rparr>
      else if isStream f then
        st\<lparr>emitted := emitted st @ [PluginError ''gulp-gh-pages'' ''Stream content is not supported'']\<rparr>
      else st\<lparr>filePaths := filePaths st @ [f]\<rparr>)"

fun collect :: "vinyl list \<Rightarrow> collector \<Rightarrow> collector" where
  "collect [] st = st"
| "collect (f # fs) st = collect fs (collectFileName f st)"

section \<open>The collaborators: \<^verbatim>\<open>lib/git\<close>, \<^verbatim>\<open>gulp.dest\<close>, the clock\<close>

text \<open>
  The repository object. \<^verbatim>\<open>index.js\<close> reads three of its properties; whatever else the
  object and the file system behind it hold is the record's extension.
\<close>

record repo =
  localBranches :: "string list"
  remoteBranches :: "string list"
  staged :: "(string \<times> string) list"

definition Object_keys :: "(string \<times> 'v) list \<Rightarrow> string list" where
  "Object_keys obj = remdups (map fst obj)"

type_synonym err = string

text \<open>
  What becomes of a promise: it is fulfilled with a value, rejected with an error, or
  never settles (the operation behind it hangs).
\<close>

datatype 'r settled = Fulfilled 'r | Rejected err | Pending

text \<open>
  Every operation of the repository object returns a promise, fulfilled with the
  repository when the operation succeeds. The operations are parameters of the model: the
  task is verified for every behaviour they may have. \<open>gulp_dest\<close> stands for writing the
  given files through \<^verbatim>\<open>gulp.dest(folder)\<close> until its end or error event, and \<open>isoNow\<close> for the
  value of \<^verbatim>\<open>new Date().toISOString()\<close> when the commit message is built.
\<close>

record 'a env =
  prepareRepo :: "string option \<Rightarrow> string option \<Rightarrow> 'a repo_scheme settled"
  checkoutBranch :: "'a repo_scheme \<Rightarrow> string \<Rightarrow> 'a repo_scheme settled"
  createAndCheckoutBranch :: "'a repo_scheme \<Rightarrow> string \<Rightarrow> 'a repo_scheme settled"
  pull :: "'a repo_scheme \<Rightarrow> 'a repo_scheme settled"
  removeFiles :: "'a repo_scheme \<Rightarrow> string \<Rightarrow> bool \<Rightarrow> 'a repo_scheme settled"
  gulp_dest :: "string option \<Rightarrow> vinyl list \<Rightarrow> 'a repo_scheme \<Rightarrow> 'a repo_scheme settled"
  addFiles :: "'a repo_scheme \<Rightarrow> string \<Rightarrow> 'a repo_scheme settled"
  commit :: "'a repo_scheme \<Rightarrow> string \<Rightarrow> 'a repo_scheme settled"
  repo_push :: "'a repo_scheme \<Rightarrow> string \<Rightarrow> 'a repo_scheme settled"
  isoNow :: string

text \<open>The calls a run makes on its collaborators, in order, with their arguments.\<close>

datatype call =
    PrepareRepo "string option" "string option"
  | CheckoutBranch string
  | CreateAndCheckoutBranch string
  | Pull
  | RemoveFiles string bool
  | Dest "string option" "vinyl list"
  | AddFiles string
  | Commit string
  | Push string

text \<open>
  A promise together with the calls made on the way to it. \<open>then_p\<close> is
  \<^verbatim>\<open>.then(f)\<close> with one handler: \<open>f\<close> runs on the value of a fulfilled promise; a rejection
  skips \<open>f\<close> and stays a rejection; a promise that never settles never runs \<open>f\<close>.
\<close>

type_synonym 'r promise = "call list \<times> 'r settled"

definition invoke :: "call \<Rightarrow> 'r settled \<Rightarrow> 'r promise" where
  "invoke c res = ([c], res)"

definition resolve :: "'r \<Rightarrow> 'r promise" where
  "resolve r = ([], Fulfilled r)"

fun then_p :: "'r promise \<Rightarrow> ('r \<Rightarrow> 'r promise) \<Rightarrow> 'r promise" where
  "then_p (tr, Fulfilled r) f = (case f r of (tr', x) \<Rightarrow> (tr @ tr', x))"
| "then_p (tr, Rejected e) f = (tr, Rejected e)"
| "then_p (tr, Pending) f = (tr, Pending)"

section \<open>The task\<close>

text \<open>
  The handlers of the chain of lines 73 to 153, one definition each. The lines written
  with \<^verbatim>\<open>gutil.log\<close> go to the console only and are left out.
\<close>

definition checkout_step :: "'a env \<Rightarrow> plugin \<Rightarrow> 'a repo_scheme \<Rightarrow> 'a repo_scheme promise" where
  "checkout_step g p r =
     (if branch p \<in> set (localBranches r) then
        invoke (CheckoutBranch (branch p)) (checkoutBranch g r (branch p))
      else if (origin p @ ''/'' @ branch p) \<in> set (remoteBranches r) then
        invoke (CheckoutBranch (branch p)) (checkoutBranch g r (branch p))
      else
        invoke (CreateAndCheckoutBranch (branch p)) (createAndCheckoutBranch g r (branch p)))"

definition pull_step :: "'a env \<Rightarrow> plugin \<Rightarrow> 'a repo_scheme \<Rightarrow> 'a repo_scheme promise" where
  "pull_step g p r =
     (if truthy (cacheDir p) then invoke Pull (pull g r) else resolve r)"

definition remove_step :: "'a env \<Rightarrow> 'a repo_scheme \<Rightarrow> 'a repo_scheme promise" where
  "remove_step g r = invoke (RemoveFiles ''.'' True) (removeFiles g r ''.'' True)"

definition copy_step :: "'a env \<Rightarrow> plugin \<Rightarrow> vinyl list \<Rightarrow> 'a repo_scheme \<Rightarrow> 'a repo_scheme promise" where
  "copy_step g p fs r = invoke (Dest (cacheDir p) fs) (gulp_dest g (cacheDir p) fs r)"

definition add_step :: "'a env \<Rightarrow> 'a repo_scheme \<Rightarrow> 'a repo_scheme promise" where
  "add_step g r = invoke (AddFiles ''.'') (addFiles g r ''.'')"

definition push_step :: "'a env \<Rightarrow> plugin \<Rightarrow> 'a repo_scheme \<Rightarrow> 'a repo_scheme promise" where
  "push_step g p r =
     (if push p then invoke (Push (origin p)) (repo_push g r (origin p)) else resolve r)"

definition commit_step :: "'a env \<Rightarrow> plugin \<Rightarrow> 'a repo_scheme \<Rightarrow> 'a repo_scheme promise" where
  "commit_step g p r =
     (let filesToBeCommitted = length (Object_keys (staged r)) in
      if filesToBeCommitted = 0 then resolve r
      else
        (let message = ''Update '' @ isoNow g in
         then_p (invoke (Commit message) (commit g r message)) (push_step g p)))"

text \<open>
  The chain up to the handler that calls \<^verbatim>\<open>addFiles\<close>, and the whole chain. The promise of
  the last handler is fulfilled with the repository or, when nothing is pushed after a
  commit, with \<^verbatim>\<open>undefined\<close>; \<^verbatim>\<open>.done\<close> ignores the value, and the model keeps the
  repository in both cases, as the state the run leaves behind.
\<close>

definition staged_chain :: "'a env \<Rightarrow> plugin \<Rightarrow> vinyl list \<Rightarrow> 'a repo_scheme promise" where
  "staged_chain g p fs =
     then_p (then_p (then_p (then_p (then_p
       (invoke (PrepareRepo (remoteUrl p) (cacheDir p)) (prepareRepo g (remoteUrl p) (cacheDir p)))
       (checkout_step g p))
       (pull_step g p))
       (remove_step g))
       (copy_step g p fs))
       (add_step g)"

definition chain :: "'a env \<Rightarrow> plugin \<Rightarrow> vinyl list \<Rightarrow> 'a repo_scheme promise" where
  "chain g p fs = then_p (staged_chain g p fs) (commit_step g p)"

text \<open>
  \<^verbatim>\<open>.done(onFulfilled, onRejected)\<close>: the first handler calls the stream's callback, the
  second throws, and nothing catches what it throws. While the promise is pending neither
  runs.
\<close>

datatype outcome = Callback | Uncaught err | Hangs

fun done_p :: "'r promise \<Rightarrow> call list \<times> outcome" where
  "done_p (tr, Fulfilled r) = (tr, Callback)"
| "done_p (tr, Rejected e) = (tr, Uncaught e)"
| "done_p (tr, Pending) = (tr, Hangs)"

definition task :: "'a env \<Rightarrow> plugin \<Rightarrow> vinyl list \<Rightarrow> call list \<times> outcome" where
  "task g p fs = (if length fs = 0 then ([], Callback) else done_p (chain g p fs))"

text \<open>
  The stream of line 160: the collector runs on every incoming file, and the task runs
  once, when the input has ended, on what the collector has gathered.
\<close>

definition gh_pages :: "'a env \<Rightarrow> plugin_arg \<Rightarrow> string option \<Rightarrow> vinyl list \<Rightarrow> collector \<times> call list \<times> outcome" where
  "gh_pages g arg remote input =
     (let st = collect input collector_init in
      (st, task g (configure arg remote) (filePaths st)))"

section \<open>Reading a trace\<close>

fun is_branch_call :: "call \<Rightarrow> bool" where
  "is_branch_call (CheckoutBranch b) = True"
| "is_branch_call (CreateAndCheckoutBranch b) = True"
| "is_branch_call _ = False"

fun is_dest :: "call \<Rightarrow> bool" where
  "is_dest (Dest d fs) = True"
| "is_dest _ = False"

fun is_add :: "call \<Rightarrow> bool" where
  "is_add (AddFiles d) = True"
| "is_add _ = False"

fun is_commit :: "call \<Rightarrow> bool" where
  "is_commit (Commit m) = True"
| "is_commit _ = False"

fun is_push :: "call \<Rightarrow> bool" where
  "is_push (Push m) = True"
| "is_push _ = False"

text \<open>
  No call of \<^verbatim>\<open>gulp.dest\<close> or \<^verbatim>\<open>addFiles\<close> comes before the first recursive removal of the
  root.
\<close>

fun cleared_first :: "call list \<Rightarrow> bool" where
  "cleared_first [] = True"
| "cleared_first (c # cs) =
     (c = RemoveFiles ''.'' True \<or> (\<not> is_dest c \<and> \<not> is_add c \<and> cleared_first cs))"

section \<open>The repository handle and the materializer, after the specification\<close>

text \<open>
  \<^verbatim>\<open>lib/git.js\<close> is required by \<^verbatim>\<open>index.js\<close> but is not among the sources, and neither is
  what \<^verbatim>\<open>gulp.dest\<close> does to the disk. The definitions of this section follow the
  specification instead (its sections 3, 4.1 and 4.2); each quotes the sentence it follows.
\<close>

text \<open>
  Modelled from the spec: the Repository Handle, which ``wraps a local working copy of a
  remote repository''. Missing is the state behind the object that \<^verbatim>\<open>lib/git\<close> returns. The
  handle extends the repository object by the working copy: its root directory, the files
  of the working tree and of the index (the tracked files) by path relative to the root,
  the tree of the branch's last commit, the messages of the commits made, and the remote.
\<close>

record handle = repo +
  root :: string
  worktree :: "(string \<times> string) list"
  index :: "(string \<times> string) list"
  head :: "(string \<times> string) list"
  commits :: "string list"
  remote_accepts :: bool
  pushed_to :: "string list"

text \<open>
  Modelled from the spec: where \<^verbatim>\<open>git.prepareRepo\<close>, which is missing, puts the working copy.
  It is ``rooted at \<open>cacheDir\<close> (or a process-temporary directory)'': ``a fresh temporary
  directory is used if absent''. The temporary directory is a parameter.
\<close>

definition workingCopyRoot :: "string \<Rightarrow> string option \<Rightarrow> string" where
  "workingCopyRoot tmp dir = or_else dir tmp"

text \<open>
  Modelled from the spec: \<open>open(remoteUrl, cacheDir)\<close>, the missing \<^verbatim>\<open>git.prepareRepo\<close>, which
  ``ensures a local working copy exists''. What the clone holds is a parameter.
\<close>

definition spec_prepareRepo ::
  "string \<Rightarrow> 'a handle_scheme \<Rightarrow> string option \<Rightarrow> string option \<Rightarrow> 'a handle_scheme settled" where
  "spec_prepareRepo tmp clone url dir = Fulfilled (clone\<lparr>root := workingCopyRoot tmp dir\<rparr>)"

text \<open>
  Modelled from the spec: the missing \<open>checkoutBranch(name)\<close>, which ``switches the working
  tree to \<open>name\<close>; if \<open>name\<close> exists only as a remote-tracking ref, creates a local tracking
  branch pointed at it''. The handle holds the tree of one branch only, so switching keeps
  it.
\<close>

definition spec_checkoutBranch :: "'a handle_scheme \<Rightarrow> string \<Rightarrow> 'a handle_scheme settled" where
  "spec_checkoutBranch h name =
     (if name \<in> set (localBranches h) then Fulfilled h
      else Fulfilled (h\<lparr>localBranches := localBranches h @ [name]\<rparr>))"

text \<open>
  Modelled from the spec: the missing \<open>createAndCheckoutBranch(name)\<close>, which ``creates an
  orphan or fresh branch named \<open>name\<close> and switches to it''.
\<close>

definition spec_createAndCheckoutBranch :: "'a handle_scheme \<Rightarrow> string \<Rightarrow> 'a handle_scheme settled" where
  "spec_createAndCheckoutBranch h name = Fulfilled (h\<lparr>localBranches := localBranches h @ [name]\<rparr>)"

text \<open>
  Modelled from the spec: the missing \<open>pull()\<close>, in its case ``no-op error-free''.
\<close>

definition spec_pull :: "'a handle_scheme \<Rightarrow> 'a handle_scheme settled" where
  "spec_pull h = Fulfilled h"

text \<open>
  Modelled from the spec: what ``under \<open>path\<close>'' means for the missing \<open>removeFiles\<close> and
  \<open>addFiles\<close>. The path \<^verbatim>\<open>.\<close> is the root itself, and every file is under it.
\<close>

definition under :: "string \<Rightarrow> string \<Rightarrow> bool" where
  "under dir q = (dir = ''.'' \<or> q = dir \<or> take (length dir + 1) q = dir @ ''/'')"

text \<open>
  Modelled from the spec: the missing \<open>removeFiles(path, {recursive})\<close>, which ``stages
  deletion of everything under \<open>path\<close> in the working tree''.
\<close>

definition spec_removeFiles :: "'a handle_scheme \<Rightarrow> string \<Rightarrow> bool \<Rightarrow> 'a handle_scheme settled" where
  "spec_removeFiles h path recursive =
     Fulfilled (h\<lparr>worktree := filter (\<lambda>e. \<not> under path (fst e)) (worktree h),
                  index := filter (\<lambda>e. \<not> under path (fst e)) (index h)\<rparr>)"

text \<open>
  Modelled from the spec: \<open>materialize(artifacts, workingCopyRoot)\<close>, which ``writes each
  artifact's content to \<open>workingCopyRoot/artifact.path\<close>, \<dots> overwriting any existing file
  at that path''. Missing is what \<^verbatim>\<open>gulp.dest\<close> writes. Only a buffer has content to write.
\<close>

fun materialize :: "vinyl list \<Rightarrow> (string \<times> string) list \<Rightarrow> (string \<times> string) list" where
  "materialize [] wt = wt"
| "materialize (f # fs) wt =
     materialize fs (case contents f of Buffer s \<Rightarrow> AList.update (relative f) s wt | _ \<Rightarrow> wt)"

text \<open>
  Modelled from the spec: the Artifact Materializer behind \<^verbatim>\<open>gulp.dest(folder)\<close>. Its ``side
  effect'' is ``filesystem writes only; does not touch version-control state''. It writes
  below the folder it is given: files written to another folder than the root do not
  reach the working tree, and a folder that is not a string is refused.
\<close>

definition spec_dest :: "string option \<Rightarrow> vinyl list \<Rightarrow> 'a handle_scheme \<Rightarrow> 'a handle_scheme settled" where
  "spec_dest folder fs h =
     (case folder of
        None \<Rightarrow> Rejected ''Invalid output folder''
      | Some d \<Rightarrow> if d = root h then Fulfilled (h\<lparr>worktree := materialize fs (worktree h)\<rparr>)
                  else Fulfilled h)"

text \<open>
  Modelled from the spec: the StagedChangeSet, a ``mapping from relative file path to
  staged status'' that the missing \<open>addFiles\<close> fills. The changes are those from the last
  commit to the index: deleted, added or modified paths.
\<close>

definition changes :: "(string \<times> string) list \<Rightarrow> (string \<times> string) list \<Rightarrow> (string \<times> string) list" where
  "changes old new =
     map (\<lambda>q. (q, ''D'')) (filter (\<lambda>q. map_of new q = None) (remdups (map fst old))) @
     map (\<lambda>q. (q, if map_of old q = None then ''A'' else ''M''))
       (filter (\<lambda>q. map_of old q \<noteq> map_of new q) (remdups (map fst new)))"

text \<open>
  Modelled from the spec: the missing \<open>addFiles(path)\<close>, which ``stages all changes under
  \<open>path\<close>; populates StagedChangeSet''.
\<close>

definition spec_addFiles :: "'a handle_scheme \<Rightarrow> string \<Rightarrow> 'a handle_scheme settled" where
  "spec_addFiles h path =
     (let idx = filter (\<lambda>e. \<not> under path (fst e)) (index h) @
                filter (\<lambda>e. under path (fst e)) (worktree h)
      in Fulfilled (h\<lparr>index := idx, staged := changes (head h) idx\<rparr>))"

text \<open>
  Modelled from the spec: the missing \<open>commit(message)\<close>, which ``fails with NothingToCommit
  only if called despite an empty StagedChangeSet''.
\<close>

definition spec_commit :: "'a handle_scheme \<Rightarrow> string \<Rightarrow> 'a handle_scheme settled" where
  "spec_commit h message =
     (if staged h = [] then Rejected ''NothingToCommit''
      else Fulfilled (h\<lparr>head := index h, staged := [], commits := commits h @ [message]\<rparr>))"

text \<open>
  Modelled from the spec: the missing \<open>push(origin)\<close>, which ``pushes the current branch to
  the named remote; fails with PushRejected on non-fast-forward rejection''.
\<close>

definition spec_push :: "'a handle_scheme \<Rightarrow> string \<Rightarrow> 'a handle_scheme settled" where
  "spec_push h remote =
     (if remote_accepts h then Fulfilled (h\<lparr>pushed_to := pushed_to h @ [remote]\<rparr>)
      else Rejected ''PushRejected'')"

text \<open>
  Modelled from the spec: the collaborators of the task put together, for a temporary
  directory, a clone and a reading of the clock.
\<close>

definition spec_env :: "string \<Rightarrow> 'a handle_scheme \<Rightarrow> string \<Rightarrow> 'a handle_ext env" where
  "spec_env tmp clone now =
     \<lparr>prepareRepo = spec_prepareRepo tmp clone,
      checkoutBranch = spec_checkoutBranch,
      createAndCheckoutBranch = spec_createAndCheckoutBranch,
      pull = spec_pull,
      removeFiles = spec_removeFiles,
      gulp_dest = spec_dest,
      addFiles = spec_addFiles,
      commit = spec_commit,
      repo_push = spec_push,
      isoNow = now\<rparr>"

text \<open>A clone used in the examples: an earlier deployment of one page, and one artifact.\<close>

definition deployed :: handle where
  "deployed =
     \<lparr>localBranches = [''master''],
      remoteBranches = [''origin/master'', ''origin/gh-pages''],
      staged = [],
      root = [],
      worktree = [(''old.html'', ''O'')],
      index = [(''old.html'', ''O'')],
      head = [(''old.html'', ''O'')],
      commits = [],
      remote_accepts = True,
      pushed_to = []\<rparr>"

definition page :: vinyl where
  "page = \<lparr>relative = ''index.html'', contents = Buffer ''A''\<rparr>"

definition same_page :: vinyl where
  "same_page = \<lparr>relative = ''old.html'', contents = Buffer ''O''\<rparr>"

definition streamed :: vinyl where
  "streamed = \<lparr>relative = ''video.mp4'', contents = Stream\<rparr>"

definition folder :: vinyl where
  "folder = \<lparr>relative = ''css'', contents = Null\<rparr>"

definition demo_env :: "unit handle_ext env" where
  "demo_env = spec_env ''/tmp/tmpRepo'' deployed ''2014-03-01T10:20:30.000Z''"

definition cached :: plugin_arg where
  "cached = Obj \<lparr>opt_remoteUrl = Some ''git@example.org:site.git'', opt_origin = None,
     opt_branch = None, opt_cacheDir = Some ''.publish'', opt_push = None\<rparr>"

section \<open>The branches of the working copy\<close>







section \<open>Evaluation\<close>

lemmas run_defs = task_def chain_def staged_chain_def checkout_step_def pull_step_def
  remove_step_def copy_step_def add_step_def commit_step_def push_step_def invoke_def
  resolve_def Object_keys_def configure_def normalize_def or_else_def truthy_def Let_def
  gh_pages_def collector_init_def collectFileName_def isNull_def isStream_def

lemmas spec_defs = spec_env_def spec_prepareRepo_def spec_checkoutBranch_def
  spec_createAndCheckoutBranch_def spec_pull_def spec_removeFiles_def spec_dest_def
  spec_addFiles_def spec_commit_def spec_push_def workingCopyRoot_def under_def changes_def
  demo_env_def deployed_def page_def same_page_def streamed_def folder_def cached_def

section \<open>Traces of promise chains\<close>

lemma fst_then_p:
  "fst (then_p pr f) = fst pr @ (case snd pr of Fulfilled r \<Rightarrow> fst (f r) | _ \<Rightarrow> [])"
  by (cases pr; cases "snd pr") (auto split: prod.splits)

lemma snd_then_p:
  "snd (then_p pr f) = (case snd pr of Fulfilled r \<Rightarrow> snd (f r) | Rejected e \<Rightarrow> Rejected e | Pending \<Rightarrow> Pending)"
  by (cases pr; cases "snd pr") (auto split: prod.splits)

lemma then_p_FulfilledD:
  assumes "then_p pr f = (tr, Fulfilled r')"
  obtains tr1 r tr2 where "pr = (tr1, Fulfilled r)" "f r = (tr2, Fulfilled r')" "tr = tr1 @ tr2"
  using assms by (cases pr; cases "snd pr") (auto split: prod.splits)

lemma then_p_calls:
  assumes "\<forall>c\<in>set (fst pr). P c" and "\<And>r. \<forall>c\<in>set (fst (f r)). P c"
  shows "\<forall>c\<in>set (fst (then_p pr f)). P c"
  using assms by (auto simp: fst_then_p split: settled.splits)

lemma staged_chain_calls:
  "\<forall>c\<in>set (fst (staged_chain g p fs)). \<not> is_commit c \<and> \<not> is_push c"
  unfolding staged_chain_def
  by (intro then_p_calls) (auto simp: invoke_def resolve_def checkout_step_def pull_step_def
      remove_step_def copy_step_def add_step_def)

lemma commit_step_empty:
  "Object_keys (staged r) = [] \<Longrightarrow> commit_step g p r = ([], Fulfilled r)"
  by (simp add: commit_step_def resolve_def)

lemma commit_step_nonempty:
  "Object_keys (staged r) \<noteq> [] \<Longrightarrow>
   commit_step g p r =
     (Commit (''Update '' @ isoNow g) #
        (case commit g r (''Update '' @ isoNow g) of
           Fulfilled r' \<Rightarrow> if push p then [Push (origin p)] else []
         | _ \<Rightarrow> []),
      case commit g r (''Update '' @ isoNow g) of
        Fulfilled r' \<Rightarrow> if push p then repo_push g r' (origin p) else Fulfilled r'
      | Rejected e \<Rightarrow> Rejected e
      | Pending \<Rightarrow> Pending)"
  by (auto simp: commit_step_def invoke_def push_step_def resolve_def Let_def split: settled.splits)

lemma fst_checkout_step:
  "fst (checkout_step g p r) =
     [if branch p \<in> set (localBranches r) \<or> origin p @ ''/'' @ branch p \<in> set (remoteBranches r)
      then CheckoutBranch (branch p) else CreateAndCheckoutBranch (branch p)]"
  by (simp add: checkout_step_def invoke_def)

lemma fst_pull_step: "fst (pull_step g p r) = (if truthy (cacheDir p) then [Pull] else [])"
  by (simp add: pull_step_def invoke_def resolve_def)

lemma snd_pull_step: "snd (pull_step g p r) = (if truthy (cacheDir p) then pull g r else Fulfilled r)"
  by (simp add: pull_step_def invoke_def resolve_def)

lemma fst_remove_step: "fst (remove_step g r) = [RemoveFiles ''.'' True]"
  by (simp add: remove_step_def invoke_def)

lemma fst_copy_step: "fst (copy_step g p fs r) = [Dest (cacheDir p) fs]"
  by (simp add: copy_step_def invoke_def)

lemma fst_add_step: "fst (add_step g r) = [AddFiles ''.'']"
  by (simp add: add_step_def invoke_def)

lemma fst_commit_step_calls:
  "\<forall>c\<in>set (fst (commit_step g p r)). is_commit c \<or> is_push c"
  by (auto simp: commit_step_def Let_def resolve_def invoke_def push_step_def fst_then_p
      split: settled.splits)

lemma fst_task: "fs \<noteq> [] \<Longrightarrow> fst (task g p fs) = fst (chain g p fs)"
  by (cases "chain g p fs"; cases "snd (chain g p fs)") (auto simp: task_def)

lemma then_p_assoc: "then_p (then_p pr f) h = then_p pr (\<lambda>r. then_p (f r) h)"
  by (simp add: prod_eq_iff fst_then_p snd_then_p del: then_p.simps split: settled.splits)

lemma chain_prefix:
  "chain g p fs =
     then_p (invoke (PrepareRepo (remoteUrl p) (cacheDir p)) (prepareRepo g (remoteUrl p) (cacheDir p)))
       (\<lambda>r0. then_p (checkout_step g p r0)
         (\<lambda>r1. then_p (pull_step g p r1)
           (\<lambda>r2. then_p (then_p (then_p (then_p (resolve r2) (remove_step g)) (copy_step g p fs)) (add_step g))
              (commit_step g p))))"
  by (simp add: chain_def staged_chain_def then_p_assoc resolve_def)

lemma rest_calls:
  "\<forall>c\<in>set (fst (then_p (then_p (then_p (then_p (resolve r2) (remove_step g)) (copy_step g p fs)) (add_step g))
              (commit_step g p))). \<not> is_branch_call c \<and> c \<noteq> Pull"
  by (intro then_p_calls)
     (auto simp: resolve_def fst_remove_step fst_copy_step fst_add_step commit_step_def Let_def
        invoke_def push_step_def fst_then_p split: settled.splits)

lemma then_p_resolve: "then_p (resolve r) f = f r"
  by (cases "f r") (simp add: resolve_def)

lemma collectFileName_no_stream:
  "\<forall>a\<in>set (filePaths st). \<not> isStream a \<Longrightarrow>
   \<forall>a\<in>set (filePaths (collectFileName f st)). \<not> isStream a"
  by (auto simp: collectFileName_def)

lemma collect_no_stream:
  "\<forall>a\<in>set (filePaths st). \<not> isStream a \<Longrightarrow> \<forall>a\<in>set (filePaths (collect input st)). \<not> isStream a"
proof (induction input arbitrary: st)
  case Nil
  then show ?case by simp
next
  case (Cons f input)
  from Cons.prems have "\<forall>a\<in>set (filePaths (collectFileName f st)). \<not> isStream a"
    by (rule collectFileName_no_stream)
  then show ?case
    using Cons.IH by simp
qed

lemma chain_dest_calls:
  "\<forall>c\<in>set (fst (chain g p fs)). \<forall>d fs'. c = Dest d fs' \<longrightarrow> d = cacheDir p \<and> fs' = fs"
  unfolding chain_def staged_chain_def
  by (intro then_p_calls)
     (auto simp: invoke_def fst_checkout_step fst_pull_step fst_remove_step fst_copy_step
        fst_add_step dest: fst_commit_step_calls [rule_format])

lemma task_dest_calls:
  assumes "Dest d fs' \<in> set (fst (task g p fs))"
  shows "d = cacheDir p \<and> fs' = fs"
proof (cases "fs = []")
  case True
  with assms show ?thesis by (simp add: task_def)
next
  case False
  with assms have "Dest d fs' \<in> set (fst (chain g p fs))"
    by (simp add: fst_task)
  then show ?thesis
    using chain_dest_calls [of g p fs] by blast
qed

lemma collect_all_null:
  "\<forall>a\<in>set input. isNull a \<Longrightarrow> collect input st = st\<lparr>pushed := pushed st @ input\<rparr>"
  by (induction input arbitrary: st) (auto simp: collectFileName_def)

section \<open>The tree behind the handle\<close>

lemma cleared_first_nth:
  "cleared_first tr \<Longrightarrow> j < length tr \<Longrightarrow> is_dest (tr ! j) \<or> is_add (tr ! j) \<Longrightarrow>
   \<exists>i<j. tr ! i = RemoveFiles ''.'' True"
proof (induction tr arbitrary: j)
  case Nil
  then show ?case by simp
next
  case (Cons c cs)
  show ?case
  proof (cases "c = RemoveFiles ''.'' True")
    case True
    with Cons.prems have "0 < j"
      by (cases j) auto
    with True show ?thesis by auto
  next
    case False
    with Cons.prems obtain j' where j': "j = Suc j'"
      by (cases j) auto
    with Cons.prems False obtain i where "i < j'" "cs ! i = RemoveFiles ''.'' True"
      using Cons.IH [of j'] by auto
    with j' show ?thesis
      by (intro exI [of _ "Suc i"]) simp
  qed
qed

lemma cleared_first_chain: "cleared_first (fst (chain g p fs))"
  by (simp add: chain_prefix fst_then_p then_p_resolve invoke_def fst_checkout_step fst_pull_step
      fst_remove_step del: then_p.simps split: settled.splits)

lemma removal_precedes:
  assumes "fs \<noteq> []" and "j < length (fst (task g p fs))"
    and "is_dest (fst (task g p fs) ! j) \<or> is_add (fst (task g p fs) ! j)"
  shows "\<exists>i<j. fst (task g p fs) ! i = RemoveFiles ''.'' True"
  using assms cleared_first_chain [of g p fs] by (auto simp: fst_task intro: cleared_first_nth)

lemma staged_chain_FulfilledD:
  assumes "staged_chain g p fs = (tr, Fulfilled h5)"
  obtains h2 h3 h4 where "removeFiles g h2 ''.'' True = Fulfilled h3"
    and "gulp_dest g (cacheDir p) fs h3 = Fulfilled h4"
    and "addFiles g h4 ''.'' = Fulfilled h5"
proof -
  from assms have "\<exists>h2 h3 h4. removeFiles g h2 ''.'' True = Fulfilled h3 \<and>
      gulp_dest g (cacheDir p) fs h3 = Fulfilled h4 \<and> addFiles g h4 ''.'' = Fulfilled h5"
    unfolding staged_chain_def
    by (elim then_p_FulfilledD) (auto simp: remove_step_def copy_step_def add_step_def invoke_def)
  then show ?thesis
    using that by blast
qed

lemma materialize_keys: "fst ` set (materialize fs wt) \<subseteq> fst ` set wt \<union> relative ` set fs"
proof (induction fs arbitrary: wt)
  case Nil
  then show ?case by simp
next
  case (Cons f fs)
  show ?case
  proof (cases "contents f")
    case (Buffer s)
    have "fst ` set (AList.update (relative f) s wt) = insert (relative f) (fst ` set wt)"
      by (simp add: dom_update flip: dom_map_of_conv_image_fst) (simp add: update_conv')
    then show ?thesis
      using Cons.IH [of "AList.update (relative f) s wt"] Buffer by auto
  next
    case Null
    then show ?thesis using Cons.IH [of wt] by auto
  next
    case Stream
    then show ?thesis using Cons.IH [of wt] by auto
  qed
qed

lemma changes_empty:
  assumes "changes old new = []"
  shows "map_of old q = map_of new q"
proof (cases "map_of new q")
  case None
  have "q \<notin> fst ` set old"
  proof
    assume "q \<in> fst ` set old"
    with None have "q \<in> set (filter (\<lambda>q. map_of new q = None) (remdups (map fst old)))"
      by simp
    with assms show False
      by (simp add: changes_def filter_empty_conv)
  qed
  then have "map_of old q = None"
    by (simp add: map_of_eq_None_iff)
  with None show ?thesis
    by simp
next
  case (Some v)
  then have "q \<in> fst ` set new"
    by (meson domI domIff map_of_eq_None_iff)
  with assms show ?thesis
    by (auto simp: changes_def filter_empty_conv)
qed


lemma under_root [simp]: "under ''.'' q"
  by (simp add: under_def)

lemma staged_tree:
  fixes g :: "'a handle_ext env"
  assumes spec: "removeFiles g = spec_removeFiles" "gulp_dest g = spec_dest"
      "addFiles g = spec_addFiles"
    and run: "staged_chain g p fs = (tr, Fulfilled h5)"
  shows "fst ` set (worktree h5) \<subseteq> relative ` set fs \<and> index h5 = worktree h5 \<and>
         staged h5 = changes (head h5) (index h5)"
proof -
  from run obtain h2 h3 h4 where rm: "removeFiles g h2 ''.'' True = Fulfilled h3"
    and cp: "gulp_dest g (cacheDir p) fs h3 = Fulfilled h4"
    and ad: "addFiles g h4 ''.'' = Fulfilled h5"
    by (rule staged_chain_FulfilledD)
  from rm have h3: "worktree h3 = []" "index h3 = []"
    by (auto simp: spec(1) spec_removeFiles_def)
  from cp have "worktree h4 = materialize fs [] \<or> worktree h4 = []" and i4: "index h4 = []"
    using h3 by (auto simp: spec(2) spec_dest_def split: option.splits if_splits)
  moreover have "fst ` set (materialize fs []) \<subseteq> relative ` set fs"
    using materialize_keys [of fs "[]"] by simp
  ultimately have w4: "fst ` set (worktree h4) \<subseteq> relative ` set fs"
    by (elim disjE) simp_all
  from ad have "worktree h5 = worktree h4" "index h5 = worktree h4" "head h5 = head h4"
      "staged h5 = changes (head h4) (worktree h4)"
    using i4 by (auto simp: spec(3) spec_addFiles_def Let_def)
  with w4 show ?thesis by simp
qed

lemma commit_step_tree:
  fixes g :: "'a handle_ext env"
  assumes spec: "commit g = spec_commit" "repo_push g = spec_push"
    and st: "staged h5 = changes (head h5) (index h5)"
    and run: "commit_step g p h5 = (tr, Fulfilled h)"
  shows "worktree h = worktree h5 \<and> index h = index h5 \<and> (\<forall>q. map_of (head h) q = map_of (index h) q)"
proof (cases "Object_keys (staged h5) = []")
  case True
  then have "changes (head h5) (index h5) = []"
    using st by (simp add: Object_keys_def)
  then have "map_of (head h5) q = map_of (index h5) q" for q
    by (rule changes_empty)
  moreover from True run have "h = h5"
    by (simp add: commit_step_empty)
  ultimately show ?thesis by simp
next
  case False
  from run show ?thesis
    unfolding commit_step_nonempty [OF False]
    by (auto simp: spec spec_commit_def spec_push_def split: settled.splits if_splits)
qed

section \<open>Properties\<close>

text \<open>
  C1. When the collected artifact list is empty, the task makes no call at all on its
  collaborators (no clone, checkout, pull, remove, add, commit or push, and no copy
  either) and calls the completion callback at once. So does every run of the plugin
  whose input leaves \<^verbatim>\<open>filePaths\<close> empty.
\<close>

theorem task_empty_no_operation:
  "task g p [] = ([], Callback) \<and>
   (filePaths (collect input collector_init) = [] \<longrightarrow>
      snd (gh_pages g arg remote input) = ([], Callback))"
  by (simp add: task_def gh_pages_def)

theorem task_empty_no_operation_witness:
  "filePaths (collect [folder] collector_init) = [] \<and>
   snd (gh_pages demo_env cached None [folder]) = ([], Callback)"
  using task_empty_no_operation [of demo_env "configure cached None" "[folder]" cached None]
  by (simp add: collector_init_def collectFileName_def isNull_def folder_def)




text \<open>
  C3. In a run that reaches the synchronisation step (artifacts were collected,
  \<^verbatim>\<open>prepareRepo\<close> and the branch call were fulfilled), \<^verbatim>\<open>pull()\<close> is called if and only if a
  cache directory was given in the options: the guard is \<^verbatim>\<open>if (cacheDir)\<close>, so given means a
  non-empty string. When it is called it is the third call of the run. When no cache
  directory was given the step makes no call, and the third call of the run is the
  recursive removal of the root.
\<close>

theorem pull_iff_cacheDir:
  assumes "fs \<noteq> []"
    and "prepareRepo g (remoteUrl p) (cacheDir p) = Fulfilled r0"
    and "snd (checkout_step g p r0) = Fulfilled r1"
  shows "(Pull \<in> set (fst (task g p fs)) \<longleftrightarrow> truthy (cacheDir p)) \<and>
         (cacheDir p = None \<longrightarrow> Pull \<notin> set (fst (task g p fs))) \<and>
         fst (task g p fs) ! 2 = (if truthy (cacheDir p) then Pull else RemoveFiles ''.'' True)"
proof -
  have absent: "cacheDir p = None \<Longrightarrow> \<not> truthy (cacheDir p)"
    by (simp add: truthy_def)
  let ?rest = "\<lambda>r2. then_p (then_p (then_p (then_p (resolve r2) (remove_step g)) (copy_step g p fs)) (add_step g))
              (commit_step g p)"
  let ?tail = "case snd (pull_step g p r1) of Fulfilled r2 \<Rightarrow> fst (?rest r2) | _ \<Rightarrow> []"
  obtain bc where bc: "fst (checkout_step g p r0) = [bc]" "bc \<noteq> Pull"
    by (simp add: fst_checkout_step)
  have tr: "fst (task g p fs) =
      PrepareRepo (remoteUrl p) (cacheDir p) # bc # fst (pull_step g p r1) @ ?tail"
    using assms bc(1) by (simp add: fst_task chain_prefix fst_then_p invoke_def del: then_p.simps)
  have "\<forall>c\<in>set ?tail. c \<noteq> Pull"
    using rest_calls [of _ g p fs] by (cases "snd (pull_step g p r1)") auto
  then have no_pull: "Pull \<notin> set ?tail"
    by blast
  have hd_rest: "\<exists>cs. fst (?rest r2) = RemoveFiles ''.'' True # cs" for r2
    by (simp add: then_p_resolve fst_then_p fst_remove_step del: then_p.simps)
  show ?thesis
  proof (cases "truthy (cacheDir p)")
    case True
    with absent show ?thesis
      unfolding tr by (auto simp: fst_pull_step)
  next
    case False
    then obtain cs where "?tail = RemoveFiles ''.'' True # cs"
      using hd_rest [of r1] by (auto simp: snd_pull_step)
    with False no_pull bc(2) show ?thesis
      unfolding tr by (simp add: fst_pull_step truthy_def)
  qed
qed

theorem pull_iff_cacheDir_witness:
  "[page] \<noteq> [] \<and>
   prepareRepo demo_env (remoteUrl (configure cached None)) (cacheDir (configure cached None)) =
     Fulfilled (deployed\<lparr>root := ''.publish''\<rparr>) \<and>
   snd (checkout_step demo_env (configure cached None) (deployed\<lparr>root := ''.publish''\<rparr>)) =
     Fulfilled (deployed\<lparr>root := ''.publish'', localBranches := [''master'', ''gh-pages'']\<rparr>) \<and>
   truthy (cacheDir (configure cached None)) \<and>
   Pull \<in> set (fst (task demo_env (configure cached None) [page])) \<and>
   fst (task demo_env (configure cached None) [page]) ! 2 = Pull"
proof -
  have h1: "[page] \<noteq> []"
    by simp
  have h2: "prepareRepo demo_env (remoteUrl (configure cached None)) (cacheDir (configure cached None)) =
     Fulfilled (deployed\<lparr>root := ''.publish''\<rparr>)"
    by (simp add: run_defs spec_defs)
  have h3: "snd (checkout_step demo_env (configure cached None) (deployed\<lparr>root := ''.publish''\<rparr>)) =
     Fulfilled (deployed\<lparr>root := ''.publish'', localBranches := [''master'', ''gh-pages'']\<rparr>)"
    by (simp add: run_defs spec_defs)
  have t: "truthy (cacheDir (configure cached None))"
    by (simp add: run_defs spec_defs)
  from pull_iff_cacheDir [OF h1 h2 h3] h2 h3 t show ?thesis
    by simp
qed

text \<open>
  C4. In a run whose \<^verbatim>\<open>addFiles\<close> is fulfilled with a repository that has no staged entry,
  the calls made are those up to \<^verbatim>\<open>addFiles\<close>: none of them is a commit or a push, and the
  completion callback is called.
\<close>

theorem unchanged_no_commit:
  assumes "fs \<noteq> []" and "staged_chain g p fs = (tr, Fulfilled r)" and "Object_keys (staged r) = []"
  shows "task g p fs = (tr, Callback) \<and> (\<forall>c\<in>set tr. \<not> is_commit c \<and> \<not> is_push c)"
proof -
  have "chain g p fs = (tr, Fulfilled r)"
    using assms(2,3) by (simp add: chain_def commit_step_empty)
  then have "task g p fs = (tr, Callback)"
    using assms(1) by (simp add: task_def)
  moreover have "\<forall>c\<in>set tr. \<not> is_commit c \<and> \<not> is_push c"
    using staged_chain_calls [of g p fs] assms(2) by simp
  ultimately show ?thesis by simp
qed

theorem unchanged_no_commit_witness:
  "task demo_env (configure cached None) [same_page] =
     ([PrepareRepo (Some ''git@example.org:site.git'') (Some ''.publish''),
       CheckoutBranch ''gh-pages'', Pull, RemoveFiles ''.'' True,
       Dest (Some ''.publish'') [same_page], AddFiles ''.''], Callback)"
proof -
  let ?tr = "[PrepareRepo (Some ''git@example.org:site.git'') (Some ''.publish''),
       CheckoutBranch ''gh-pages'', Pull, RemoveFiles ''.'' True,
       Dest (Some ''.publish'') [same_page], AddFiles ''.'']"
  let ?r = "deployed\<lparr>root := ''.publish'', localBranches := [''master'', ''gh-pages'']\<rparr>"
  have h1: "[same_page] \<noteq> []"
    by simp
  have h2: "staged_chain demo_env (configure cached None) [same_page] = (?tr, Fulfilled ?r)"
    by (simp add: run_defs spec_defs)
  have h3: "Object_keys (staged ?r) = []"
    by (simp add: Object_keys_def deployed_def)
  from unchanged_no_commit [OF h1 h2 h3] show ?thesis
    by simp
qed

text \<open>
  The part of C5 that is about the task: in a run with staged entries \<^verbatim>\<open>commit\<close> is called
  once, and its message is
  \<^verbatim>\<open>'Update '\<close> followed by what \<^verbatim>\<open>new Date().toISOString()\<close> returns at that moment. How that
  string relates to the time at which the run started is a matter of the clock, which the
  task reads nowhere else.
\<close>

lemma commit_once:
  assumes "fs \<noteq> []" and "staged_chain g p fs = (tr, Fulfilled r)"
    and "Object_keys (staged r) \<noteq> []"
  shows "filter is_commit (fst (task g p fs)) = [Commit (''Update '' @ isoNow g)]"
proof -
  have "fst (chain g p fs) = tr @ fst (commit_step g p r)"
    using assms(2) by (simp add: chain_def fst_then_p del: then_p.simps)
  moreover have "filter is_commit tr = []"
    using staged_chain_calls [of g p fs] assms(2) by (simp add: filter_empty_conv)
  ultimately show ?thesis
    using assms(1,3) by (auto simp: fst_task commit_step_nonempty split: settled.splits)
qed

text \<open>
  C6. Push gating. The push option is on unless the options say \<^verbatim>\<open>push: false\<close>. In a run
  whose \<^verbatim>\<open>addFiles\<close> is fulfilled with staged entries, the calls up to \<^verbatim>\<open>addFiles\<close> hold no
  commit and no push; they are followed by one commit; and one push to the configured
  origin follows the commit exactly when the commit was fulfilled and the push option is
  on. With the option off the commit is the last call.
\<close>

theorem push_gating:
  assumes "p = configure arg remote" and "fs \<noteq> []"
    and "staged_chain g p fs = (tr, Fulfilled r)"
    and "Object_keys (staged r) \<noteq> []"
  shows "push p = (opt_push (normalize arg remote) \<noteq> Some False) \<and>
         fst (task g p fs) =
           tr @ Commit (''Update '' @ isoNow g) #
             (if push p \<and> (\<exists>r'. commit g r (''Update '' @ isoNow g) = Fulfilled r')
              then [Push (origin p)] else []) \<and>
         (\<forall>c\<in>set tr. \<not> is_commit c \<and> \<not> is_push c)"
proof -
  have "push p = (opt_push (normalize arg remote) \<noteq> Some False)"
    using assms(1) by (auto simp: configure_def Let_def split: option.splits)
  moreover have "fst (chain g p fs) = tr @ fst (commit_step g p r)"
    using assms(3) by (simp add: chain_def fst_then_p del: then_p.simps)
  moreover have "\<forall>c\<in>set tr. \<not> is_commit c \<and> \<not> is_push c"
    using staged_chain_calls [of g p fs] assms(3) by simp
  ultimately show ?thesis
    using assms(2,4) by (auto simp: fst_task commit_step_nonempty split: settled.splits)
qed

theorem push_gating_witness:
  "opt_push (normalize cached None) = None \<and> push (configure cached None) \<and>
   fst (task demo_env (configure cached None) [page]) =
     [PrepareRepo (Some ''git@example.org:site.git'') (Some ''.publish''),
      CheckoutBranch ''gh-pages'', Pull, RemoveFiles ''.'' True,
      Dest (Some ''.publish'') [page], AddFiles ''.'',
      Commit ''Update 2014-03-01T10:20:30.000Z'', Push ''origin'']"
proof -
  let ?tr = "[PrepareRepo (Some ''git@example.org:site.git'') (Some ''.publish''),
       CheckoutBranch ''gh-pages'', Pull, RemoveFiles ''.'' True,
       Dest (Some ''.publish'') [page], AddFiles ''.'']"
  let ?r = "deployed\<lparr>root := ''.publish'', localBranches := [''master'', ''gh-pages''],
       worktree := [(''index.html'', ''A'')], index := [(''index.html'', ''A'')],
       staged := [(''old.html'', ''D''), (''index.html'', ''A'')]\<rparr>"
  have h1: "configure cached None = configure cached None"
    by simp
  have h2: "[page] \<noteq> []"
    by simp
  have h3: "staged_chain demo_env (configure cached None) [page] = (?tr, Fulfilled ?r)"
    by (simp add: run_defs spec_defs)
  have h4: "Object_keys (staged ?r) \<noteq> []"
    by (simp add: Object_keys_def deployed_def)
  have c: "\<exists>r'. commit demo_env ?r ''Update 2014-03-01T10:20:30.000Z'' = Fulfilled r'"
    by (simp add: spec_defs)
  have e: "isoNow demo_env = ''2014-03-01T10:20:30.000Z''" "origin (configure cached None) = ''origin''"
    "opt_push (normalize cached None) = None"
    by (simp_all add: run_defs spec_defs)
  from push_gating [OF h1 h2 h3 h4] show ?thesis
    by (simp add: c e)
qed

text \<open>
  C7. A file whose content is a stream makes the collector emit the plugin error
  ``Stream content is not supported''; the file is neither added to \<^verbatim>\<open>filePaths\<close> nor pushed
  downstream. Whatever the input, no collected file has stream content, and no file
  handed to \<^verbatim>\<open>gulp.dest\<close> by the run has: the run writes the collected files only, and
  staging takes what was written.
\<close>

theorem stream_rejected:
  "(isStream f \<longrightarrow>
      collectFileName f st =
        st\<lparr>emitted := emitted st @ [PluginError ''gulp-gh-pages'' ''Stream content is not supported'']\<rparr> \<and>
      filePaths (collectFileName f st) = filePaths st \<and> pushed (collectFileName f st) = pushed st) \<and>
   (\<forall>a \<in> set (filePaths (collect input collector_init)). \<not> isStream a) \<and>
   (\<forall>d fs'. Dest d fs' \<in> set (fst (snd (gh_pages g arg remote input))) \<longrightarrow> (\<forall>a\<in>set fs'. \<not> isStream a))"
proof -
  have one: "isStream f \<longrightarrow>
      collectFileName f st =
        st\<lparr>emitted := emitted st @ [PluginError ''gulp-gh-pages'' ''Stream content is not supported'']\<rparr> \<and>
      filePaths (collectFileName f st) = filePaths st \<and> pushed (collectFileName f st) = pushed st"
    by (auto simp: collectFileName_def isStream_def isNull_def)
  have two: "\<forall>a \<in> set (filePaths (collect input collector_init)). \<not> isStream a"
    by (rule collect_no_stream) (simp add: collector_init_def)
  have three: "\<forall>d fs'. Dest d fs' \<in> set (fst (snd (gh_pages g arg remote input))) \<longrightarrow> (\<forall>a\<in>set fs'. \<not> isStream a)"
    using two by (auto simp: gh_pages_def Let_def dest!: task_dest_calls)
  from one two three show ?thesis by blast
qed

theorem stream_rejected_witness:
  "isStream streamed \<and>
   collectFileName streamed collector_init =
     \<lparr>filePaths = [], pushed = [],
      emitted = [PluginError ''gulp-gh-pages'' ''Stream content is not supported'']\<rparr> \<and>
   filePaths (collect [page, streamed] collector_init) = [page] \<and> \<not> isStream page \<and>
   Dest (Some ''.publish'') [page] \<in> set (fst (snd (gh_pages demo_env cached None [page, streamed])))"
  using stream_rejected [of streamed collector_init "[page, streamed]" demo_env cached None]
  by (simp add: run_defs spec_defs)

text \<open>
  C10. A file with null content is pushed downstream as it is and is not added to
  \<^verbatim>\<open>filePaths\<close>. So when every input file has null content, all of them are forwarded,
  nothing is collected, and the task calls the callback without a single call on the
  repository.
\<close>

theorem null_forwarded:
  "(isNull f \<longrightarrow> collectFileName f st = st\<lparr>pushed := pushed st @ [f]\<rparr> \<and>
      filePaths (collectFileName f st) = filePaths st) \<and>
   ((\<forall>a\<in>set input. isNull a) \<longrightarrow>
      gh_pages g arg remote input = (\<lparr>filePaths = [], pushed = input, emitted = []\<rparr>, [], Callback))"
  by (auto simp: collectFileName_def gh_pages_def collect_all_null collector_init_def task_def)

theorem null_forwarded_witness:
  "isNull folder \<and>
   collectFileName folder collector_init = \<lparr>filePaths = [], pushed = [folder], emitted = []\<rparr> \<and>
   gh_pages demo_env cached None [folder, folder] =
     (\<lparr>filePaths = [], pushed = [folder, folder], emitted = []\<rparr>, [], Callback)"
  using null_forwarded [of folder collector_init "[folder, folder]" demo_env cached None]
  by (simp add: run_defs spec_defs)

text \<open>
  C8. The artifacts are to be written into the root of the working copy. The folder the
  task hands to \<^verbatim>\<open>gulp.dest\<close> is the option \<^verbatim>\<open>cacheDir\<close> as it was given. With the option
  absent the working copy is in the temporary directory, yet the folder handed over is
  \<^verbatim>\<open>undefined\<close>: in the run below from the bare-string form of the options, the repository
  is prepared at \<^verbatim>\<open>/tmp/tmpRepo\<close>, the call is \<^verbatim>\<open>gulp.dest(undefined)\<close>, nothing is written
  into the working copy, and the run ends in the error.
\<close>

theorem ephemeral_clone_dest_undefined:
  "prepareRepo demo_env (Some ''git@example.org:site.git'') None =
     Fulfilled (deployed\<lparr>root := ''/tmp/tmpRepo''\<rparr>) \<and>
   task demo_env (configure (Str ''git@example.org:site.git'') None) [page] =
     ([PrepareRepo (Some ''git@example.org:site.git'') None, CheckoutBranch ''gh-pages'',
       RemoveFiles ''.'' True, Dest None [page]],
      Uncaught ''Invalid output folder'')"
  by (simp add: run_defs spec_defs)

text \<open>
  C9. In every run with artifacts, each call of \<^verbatim>\<open>gulp.dest\<close> and of \<^verbatim>\<open>addFiles\<close> comes after
  a call \<^verbatim>\<open>removeFiles('.', {r: true})\<close>. With the handle and the materializer of the
  specification, a run that is fulfilled therefore leaves no file outside the new
  artifact set: a path that is not the path of an artifact is not in the working tree,
  not in the index, and not in the tree of the branch's last commit, whether or not an
  earlier deployment tracked it.
\<close>

theorem stale_files_removed:
  fixes g :: "'a handle_ext env"
  assumes "fs \<noteq> []"
  shows "(\<forall>j<length (fst (task g p fs)).
            is_dest (fst (task g p fs) ! j) \<or> is_add (fst (task g p fs) ! j) \<longrightarrow>
            (\<exists>i<j. fst (task g p fs) ! i = RemoveFiles ''.'' True)) \<and>
         (removeFiles g = spec_removeFiles \<and> gulp_dest g = spec_dest \<and> addFiles g = spec_addFiles \<and>
          commit g = spec_commit \<and> repo_push g = spec_push \<longrightarrow>
          (\<forall>tr h q. chain g p fs = (tr, Fulfilled h) \<and> q \<notin> relative ` set fs \<longrightarrow>
             map_of (worktree h) q = None \<and> map_of (index h) q = None \<and> map_of (head h) q = None))"
proof (intro conjI impI allI)
  fix j
  assume "j < length (fst (task g p fs))"
    and "is_dest (fst (task g p fs) ! j) \<or> is_add (fst (task g p fs) ! j)"
  with assms show "\<exists>i<j. fst (task g p fs) ! i = RemoveFiles ''.'' True"
    by (rule removal_precedes)
next
  fix tr h q
  assume spec: "removeFiles g = spec_removeFiles \<and> gulp_dest g = spec_dest \<and>
      addFiles g = spec_addFiles \<and> commit g = spec_commit \<and> repo_push g = spec_push"
    and run: "chain g p fs = (tr, Fulfilled h) \<and> q \<notin> relative ` set fs"
  from run obtain tr1 h5 tr2 where s: "staged_chain g p fs = (tr1, Fulfilled h5)"
    and c: "commit_step g p h5 = (tr2, Fulfilled h)"
    unfolding chain_def by (elim conjE then_p_FulfilledD)
  from spec s have t5: "fst ` set (worktree h5) \<subseteq> relative ` set fs" "index h5 = worktree h5"
      "staged h5 = changes (head h5) (index h5)"
    using staged_tree [of g p fs tr1 h5] by simp_all
  from spec t5(3) c have t: "worktree h = worktree h5" "index h = index h5"
      "map_of (head h) q = map_of (index h) q"
    using commit_step_tree [of g h5 p tr2 h] by simp_all
  from run t5(1) have "q \<notin> fst ` set (worktree h5)"
    by blast
  then have "map_of (worktree h5) q = None"
    by (simp add: map_of_eq_None_iff)
  with t t5(2) show "map_of (worktree h) q = None" "map_of (index h) q = None"
      "map_of (head h) q = None"
    by simp_all
qed


theorem stale_files_removed_witness:
  "[page] \<noteq> [] \<and>
   is_dest (fst (task demo_env (configure cached None) [page]) ! 4) \<and>
   fst (task demo_env (configure cached None) [page]) ! 3 = RemoveFiles ''.'' True \<and>
   removeFiles demo_env = spec_removeFiles \<and> gulp_dest demo_env = spec_dest \<and>
   addFiles demo_env = spec_addFiles \<and> commit demo_env = spec_commit \<and>
   repo_push demo_env = spec_push \<and>
   map_of (head deployed) ''old.html'' = Some ''O'' \<and>
   ''old.html'' \<notin> relative ` set [page] \<and>
   (\<exists>tr h. chain demo_env (configure cached None) [page] = (tr, Fulfilled h) \<and>
      map_of (worktree h) ''old.html'' = None \<and> map_of (index h) ''old.html'' = None \<and>
      map_of (head h) ''old.html'' = None)"
proof -
  let ?tr = "[PrepareRepo (Some ''git@example.org:site.git'') (Some ''.publish''),
      CheckoutBranch ''gh-pages'', Pull, RemoveFiles ''.'' True,
      Dest (Some ''.publish'') [page], AddFiles ''.'',
      Commit ''Update 2014-03-01T10:20:30.000Z'', Push ''origin'']"
  let ?h = "deployed\<lparr>root := ''.publish'', localBranches := [''master'', ''gh-pages''],
       worktree := [(''index.html'', ''A'')], index := [(''index.html'', ''A'')],
       head := [(''index.html'', ''A'')], commits := [''Update 2014-03-01T10:20:30.000Z''],
       pushed_to := [''origin'']\<rparr>"
  have h1: "[page] \<noteq> []"
    by simp
  have t: "fst (task demo_env (configure cached None) [page]) = ?tr"
    by (simp add: run_defs spec_defs)
  have s: "removeFiles demo_env = spec_removeFiles \<and> gulp_dest demo_env = spec_dest \<and>
      addFiles demo_env = spec_addFiles \<and> commit demo_env = spec_commit \<and>
      repo_push demo_env = spec_push"
    by (simp add: demo_env_def spec_env_def)
  have c: "chain demo_env (configure cached None) [page] = (?tr, Fulfilled ?h)"
    by (simp add: run_defs spec_defs)
  have q: "''old.html'' \<notin> relative ` set [page]" "map_of (head deployed) ''old.html'' = Some ''O''"
    by (simp_all add: page_def deployed_def)
  from stale_files_removed [OF h1, of demo_env "configure cached None"] s c q
  have "map_of (worktree ?h) ''old.html'' = None \<and> map_of (index ?h) ''old.html'' = None \<and>
      map_of (head ?h) ''old.html'' = None"
    by blast
  with c have "\<exists>tr h. chain demo_env (configure cached None) [page] = (tr, Fulfilled h) \<and>
      map_of (worktree h) ''old.html'' = None \<and> map_of (index h) ''old.html'' = None \<and>
      map_of (head h) ''old.html'' = None"
    by blast
  with h1 s q show ?thesis
    by (simp add: t)
qed

end
